theory Spec2Isabelle
  imports Main "HOL-Library.Word" "HOL-Library.Product_Lexorder" "HOL-Library.Code_Target_Nat"
begin

unbundle bit_operations_syntax

section \<open>The 128-bit value type\<close>

text \<open>
  \<^verbatim>\<open>u64\<close> is \<^verbatim>\<open>uint64_t\<close>; shift counts have the C++ type \<^verbatim>\<open>unsigned\<close>, taken
  as 32 bits wide, its width under the compilers the header names (MSVC, GCC, Clang).
  Arithmetic on both wraps around.
\<close>

type_synonym u64 = "64 word"
type_synonym unsigned = "32 word"

text \<open>\<^verbatim>\<open>struct u128 { u64 lo, hi; }\<close>\<close>

record u128 =
  lo :: u64
  hi :: u64

text \<open>The three constructors: \<^verbatim>\<open>u128()\<close>, \<^verbatim>\<open>u128(lo_)\<close>, \<^verbatim>\<open>u128(lo_, hi_)\<close>.\<close>

definition u128_default :: u128 where
  "u128_default = \<lparr> lo = 0, hi = 0 \<rparr>"

definition u128_of_u64 :: "u64 \<Rightarrow> u128" where
  "u128_of_u64 lo' = \<lparr> lo = lo', hi = 0 \<rparr>"

definition u128_of_limbs :: "u64 \<Rightarrow> u64 \<Rightarrow> u128" where
  "u128_of_limbs lo' hi' = \<lparr> lo = lo', hi = hi' \<rparr>"

definition ZERO :: u128 where
  "ZERO = \<lparr> lo = 0, hi = 0 \<rparr>"

definition ONE :: u128 where
  "ONE = \<lparr> lo = 1, hi = 0 \<rparr>"

definition MAX_u128 :: u128 where
  "MAX_u128 = \<lparr> lo = 0xFFFFFFFFFFFFFFFF, hi = 0xFFFFFFFFFFFFFFFF \<rparr>"

text \<open>The unsigned integer a value stands for: \<open>hi \<sqdot> 2\<^sup>6\<^sup>4 + lo\<close>.\<close>

definition val :: "u128 \<Rightarrow> nat" where
  "val v = unat (hi v) * 2 ^ 64 + unat (lo v)"

text \<open>The same number as one 128-bit word: the high limb above the low limb.\<close>

definition word128 :: "u128 \<Rightarrow> 128 word" where
  "word128 v = push_bit 64 (ucast (hi v)) OR ucast (lo v)"

subsection \<open>Shifts\<close>

text \<open>
  \<^verbatim>\<open>operator<<=\<close> and \<^verbatim>\<open>operator>>=\<close>, statement by statement. The record updates of one
  step read the limbs as they were before that step, which is what the source does: it
  assigns \<^verbatim>\<open>hi\<close> from the old \<^verbatim>\<open>lo\<close> before it overwrites \<^verbatim>\<open>lo\<close>.
\<close>

definition shl_assign :: "u128 \<Rightarrow> unsigned \<Rightarrow> u128" where
  "shl_assign v nbits =
     (if nbits = 0 then v
      else if 128 \<le> nbits then v\<lparr> lo := 0, hi := 0 \<rparr>
      else
        let (v, nbits) =
              (if 64 \<le> nbits then (v\<lparr> hi := lo v, lo := 0 \<rparr>, nbits - 64) else (v, nbits))
        in if 0 < nbits
           then v\<lparr> hi := push_bit (unat nbits) (hi v) OR drop_bit (unat (64 - nbits)) (lo v),
                   lo := push_bit (unat nbits) (lo v) \<rparr>
           else v)"

definition shr_assign :: "u128 \<Rightarrow> unsigned \<Rightarrow> u128" where
  "shr_assign v nbits =
     (if nbits = 0 then v
      else if 128 \<le> nbits then v\<lparr> lo := 0, hi := 0 \<rparr>
      else
        let (v, nbits) =
              (if 64 \<le> nbits then (v\<lparr> lo := hi v, hi := 0 \<rparr>, nbits - 64) else (v, nbits))
        in if 0 < nbits
           then v\<lparr> lo := drop_bit (unat nbits) (lo v) OR push_bit (unat (64 - nbits)) (hi v),
                   hi := drop_bit (unat nbits) (hi v) \<rparr>
           else v)"

text \<open>\<^verbatim>\<open>operator<<\<close> and \<^verbatim>\<open>operator>>\<close> shift a copy of the value.\<close>

definition shl :: "u128 \<Rightarrow> unsigned \<Rightarrow> u128" where
  "shl v nbits = shl_assign v nbits"

definition shr :: "u128 \<Rightarrow> unsigned \<Rightarrow> u128" where
  "shr v nbits = shr_assign v nbits"

subsection \<open>Comparison\<close>

definition eq :: "u128 \<Rightarrow> u128 \<Rightarrow> bool" where
  "eq v o' = (lo v = lo o' \<and> hi v = hi o')"

definition ne :: "u128 \<Rightarrow> u128 \<Rightarrow> bool" where
  "ne v o' = (\<not> eq v o')"

definition lt :: "u128 \<Rightarrow> u128 \<Rightarrow> bool" where
  "lt v o' = (hi v < hi o' \<or> (hi v = hi o' \<and> lo v < lo o'))"

definition le :: "u128 \<Rightarrow> u128 \<Rightarrow> bool" where
  "le v o' = (\<not> lt o' v)"

definition gt :: "u128 \<Rightarrow> u128 \<Rightarrow> bool" where
  "gt v o' = lt o' v"

definition ge :: "u128 \<Rightarrow> u128 \<Rightarrow> bool" where
  "ge v o' = (\<not> lt v o')"

subsection \<open>Addition\<close>

text \<open>
  \<^verbatim>\<open>operator+=\<close> on an \<^verbatim>\<open>other\<close> that is a different object from \<^verbatim>\<open>*this\<close>: the
  carry test reads the updated \<^verbatim>\<open>lo\<close> and the argument's unchanged \<^verbatim>\<open>lo\<close>. A C++
  \<^verbatim>\<open>bool\<close> converts to 0 or 1.
\<close>

definition add_assign :: "u128 \<Rightarrow> u128 \<Rightarrow> u128" where
  "add_assign v other =
     (let v = v\<lparr> lo := lo v + lo other \<rparr>;
          v = v\<lparr> hi := hi v + (hi other + of_bool (lo v < lo other)) \<rparr>
      in v)"

definition add_assign_u64 :: "u128 \<Rightarrow> u64 \<Rightarrow> u128" where
  "add_assign_u64 v other =
     (let v = v\<lparr> lo := lo v + other \<rparr>;
          v = v\<lparr> hi := hi v + of_bool (lo v < other) \<rparr>
      in v)"

text \<open>
  The three \<^verbatim>\<open>operator+\<close> forms each apply \<^verbatim>\<open>+=\<close> to a fresh temporary, so the two
  operands of \<^verbatim>\<open>+=\<close> are never the same object there.
\<close>

definition add :: "u128 \<Rightarrow> u128 \<Rightarrow> u128" where
  "add v other = add_assign v other"

definition add_u64 :: "u128 \<Rightarrow> u64 \<Rightarrow> u128" where
  "add_u64 v other = add_assign_u64 v other"

definition u64_add :: "u64 \<Rightarrow> u128 \<Rightarrow> u128" where
  "u64_add a b = add_assign (u128_of_u64 a) b"

text \<open>
  \<^verbatim>\<open>x += x\<close>: here \<^verbatim>\<open>other\<close> is \<^verbatim>\<open>*this\<close>, and \<^verbatim>\<open>other.lo\<close> in the carry test
  reads the limb that the first statement has just overwritten.
\<close>

definition add_assign_self :: "u128 \<Rightarrow> u128" where
  "add_assign_self v =
     (let v = v\<lparr> lo := lo v + lo v \<rparr>;
          v = v\<lparr> hi := hi v + (hi v + of_bool (lo v < lo v)) \<rparr>
      in v)"

section \<open>Multiplication\<close>

subsection \<open>The portable 64 \<times> 64 \<rightarrow> 128 product\<close>

text \<open>The two lambdas of \<^verbatim>\<open>mul64_portable\<close>.\<close>

definition LO :: "u64 \<Rightarrow> u64" where
  "LO x = x AND 0xFFFFFFFF"

definition HI :: "u64 \<Rightarrow> u64" where
  "HI x = drop_bit 32 x"

definition mul64_portable :: "u64 \<Rightarrow> u64 \<Rightarrow> u128" where
  "mul64_portable a b =
     (let p00 = LO a * LO b;
          p01 = LO a * HI b;
          p10 = HI a * LO b;
          p11 = HI a * HI b;
          x = HI p00 + LO p01 + LO p10;
          y = HI p01 + HI p10 + LO p11 + HI x
      in \<lparr> lo = LO p00 OR push_bit 32 x, hi = y + push_bit 32 (HI p11) \<rparr>)"

subsection \<open>The dispatching primitive\<close>

text \<open>
  \<^verbatim>\<open>mul64\<close> is one of three bodies, chosen by the preprocessor. The choice is a parameter
  of the model.
\<close>

datatype substrate = MSVC | INT128 | PORTABLE

text \<open>
  The MSVC intrinsic \<^verbatim>\<open>_umul128(a, b, &hi)\<close> is not part of the repository. The header
  describes it: it computes the full 128-bit unsigned product, stores the upper 64 bits
  into \<^verbatim>\<open>*hi\<close> and returns the lower 64 bits. The pair below is (returned, stored).
\<close>

definition umul128 :: "u64 \<Rightarrow> u64 \<Rightarrow> u64 \<times> u64" where
  "umul128 a b =
     (word_of_int ((uint a * uint b) mod 2 ^ 64), word_of_int ((uint a * uint b) div 2 ^ 64))"

definition mul64 :: "substrate \<Rightarrow> u64 \<Rightarrow> u64 \<Rightarrow> u128" where
  "mul64 s a b =
     (case s of
        MSVC \<Rightarrow> (let (lo', hi') = umul128 a b in \<lparr> lo = lo', hi = hi' \<rparr>)
      | INT128 \<Rightarrow>
          (let prod = (ucast a :: 128 word) * (ucast b :: 128 word)
           in \<lparr> lo = ucast prod, hi = ucast (drop_bit 64 prod) \<rparr>)
      | PORTABLE \<Rightarrow> mul64_portable a b)"

subsection \<open>128 \<times> 64 and 128 \<times> 128\<close>

definition mul_u64 :: "substrate \<Rightarrow> u128 \<Rightarrow> u64 \<Rightarrow> u128" where
  "mul_u64 s v other =
     (let p_lo = mul64 s (lo v) other;
          p_hi = mul64 s (hi v) other
      in add p_lo (shl p_hi 64))"

definition mul :: "substrate \<Rightarrow> u128 \<Rightarrow> u128 \<Rightarrow> u128" where
  "mul s v other =
     (let res = mul64 s (lo v) (lo other);
          res = add_assign res (shl (mul64 s (lo v) (hi other)) 64);
          res = add_assign res (shl (mul64 s (hi v) (lo other)) 64)
      in res)"

text \<open>The friend \<^verbatim>\<open>operator*(u64, const u128&)\<close> returns \<^verbatim>\<open>b * a\<close>.\<close>

definition u64_mul :: "substrate \<Rightarrow> u64 \<Rightarrow> u128 \<Rightarrow> u128" where
  "u64_mul s a b = mul_u64 s b a"

section \<open>Formatting\<close>

subsection \<open>Locales\<close>

text \<open>
  What \<^verbatim>\<open>std::num_put\<close> reads from a locale's \<^verbatim>\<open>numpunct\<close> facet when it writes an
  integer: the sizes of the digit groups, rightmost group first, and the separator put
  between groups. The classic locale has no groups. The second locale below groups by
  threes with a comma, as \<^verbatim>\<open>en_US\<close> does.
\<close>

record std_locale =
  grouping :: "nat list"
  thousands_sep :: char

definition classic_locale :: std_locale where
  "classic_locale = \<lparr> grouping = [], thousands_sep = CHR '','' \<rparr>"

definition en_US :: std_locale where
  "en_US = \<lparr> grouping = [3, 3], thousands_sep = CHR '','' \<rparr>"

text \<open>
  Separators are inserted from the least significant digit: the list of digits is taken
  least significant first. The last group size repeats; a size of 0, or of
  \<^verbatim>\<open>CHAR_MAX\<close> and above, ends the grouping.
\<close>

function insert_seps :: "nat list \<Rightarrow> char \<Rightarrow> string \<Rightarrow> string" where
  "insert_seps g sep ds =
     (case g of
        [] \<Rightarrow> ds
      | n # rest \<Rightarrow>
          if n = 0 \<or> 127 \<le> n \<or> length ds \<le> n then ds
          else take n ds @ sep # insert_seps (if rest = [] then [n] else rest) sep (drop n ds))"
  by pat_completeness auto
termination
  by (relation "measure (\<lambda>(g, sep, ds). length ds)") auto

declare insert_seps.simps [simp del]

definition group_digits :: "std_locale \<Rightarrow> string \<Rightarrow> string" where
  "group_digits loc ds = rev (insert_seps (grouping loc) (thousands_sep loc) (rev ds))"

subsection \<open>Output streams\<close>

text \<open>
  The part of a \<^verbatim>\<open>std::ostream\<close>'s state that formatted insertion of strings and
  unsigned integers reads and writes: the characters written so far, the fill character,
  the field width, whether the base is hexadecimal (\<^verbatim>\<open>std::hex\<close>) rather than decimal,
  whether output is left-adjusted in its field, whether the stream is good (no error
  bit set), and the locale the stream is imbued with.
\<close>

record ostream =
  os_buf :: string
  os_fill :: char
  os_width :: nat
  os_hex :: bool
  os_left :: bool
  os_good :: bool
  os_loc :: std_locale

text \<open>
  A freshly constructed \<^verbatim>\<open>std::ostringstream\<close>. It is imbued with a copy of the
  process-global locale, which is a parameter here.
\<close>

definition ostringstream :: "std_locale \<Rightarrow> ostream" where
  "ostringstream glob =
     \<lparr> os_buf = [], os_fill = CHR '' '', os_width = 0, os_hex = False, os_left = False,
       os_good = True, os_loc = glob \<rparr>"

text \<open>
  A formatted insertion into a good stream pads the characters to the field width with
  the fill character, on the left unless the stream is left-adjusted, appends them, and
  resets the width to 0. Into a stream that is not good it writes nothing.
\<close>

definition pad :: "ostream \<Rightarrow> string \<Rightarrow> string" where
  "pad os s =
     (let fillers = replicate (os_width os - length s) (os_fill os)
      in if os_left os then s @ fillers else fillers @ s)"

definition put :: "ostream \<Rightarrow> string \<Rightarrow> ostream" where
  "put os s =
     (if os_good os then os\<lparr> os_buf := os_buf os @ pad os s, os_width := 0 \<rparr> else os)"

text \<open>The digits of an unsigned number, most significant first, in lowercase.\<close>

definition digit_char :: "nat \<Rightarrow> char" where
  "digit_char d = ''0123456789abcdef'' ! d"

function to_digits :: "nat \<Rightarrow> nat \<Rightarrow> string" where
  "to_digits b n =
     (if b < 2 \<or> n < b then [digit_char n]
      else to_digits b (n div b) @ [digit_char (n mod b)])"
  by pat_completeness auto
termination
  by (relation "measure snd") (auto simp add: not_less)

declare to_digits.simps [simp del]

text \<open>
  Insertion of a string and of a \<^verbatim>\<open>uint64_t\<close>; the manipulators the header uses. A
  number's digits are grouped by the stream's locale before they are padded; a string
  is not touched by the locale.
\<close>

definition put_str :: "ostream \<Rightarrow> string \<Rightarrow> ostream" where
  "put_str os s = put os s"

definition put_u64 :: "ostream \<Rightarrow> u64 \<Rightarrow> ostream" where
  "put_u64 os x =
     put os (group_digits (os_loc os) (to_digits (if os_hex os then 16 else 10) (unat x)))"

definition std_hex :: "ostream \<Rightarrow> ostream" where
  "std_hex os = os\<lparr> os_hex := True \<rparr>"

definition setfill :: "char \<Rightarrow> ostream \<Rightarrow> ostream" where
  "setfill c os = os\<lparr> os_fill := c \<rparr>"

definition setw :: "nat \<Rightarrow> ostream \<Rightarrow> ostream" where
  "setw n os = os\<lparr> os_width := n \<rparr>"

definition str :: "ostream \<Rightarrow> string" where
  "str os = os_buf os"

subsection \<open>The hexadecimal form\<close>

text \<open>
  \<^verbatim>\<open>to_string_hex\<close> builds its own \<^verbatim>\<open>std::ostringstream\<close>, so its result depends on
  the value and on the process-global locale at the time of the call.
\<close>

definition to_string_hex :: "std_locale \<Rightarrow> u128 \<Rightarrow> string" where
  "to_string_hex glob v =
     (let oss = ostringstream glob;
          oss = put_str oss ''0x'';
          oss = std_hex oss;
          oss = setfill CHR ''0'' oss;
          oss = setw 16 oss;
          oss = put_u64 oss (hi v);
          oss = setw 16 oss;
          oss = put_u64 oss (lo v)
      in str oss)"

text \<open>\<^verbatim>\<open>operator<<(std::ostream&, const u128&)\<close>\<close>

definition ostream_insert :: "std_locale \<Rightarrow> ostream \<Rightarrow> u128 \<Rightarrow> ostream" where
  "ostream_insert glob os v = put_str os (to_string_hex glob v)"

text \<open>
  The form the specification describes for one limb: sixteen hexadecimal digits, the
  digit of weight \<open>16\<^sup>1\<^sup>5\<close> first, so that small numbers start with zeros.
\<close>

definition hex16 :: "u64 \<Rightarrow> string" where
  "hex16 x = map (\<lambda>i. digit_char (unat x div 16 ^ (15 - i) mod 16)) [0..<16]"

section \<open>Correctness of the portable product\<close>

text \<open>The limb helpers, read as natural numbers.\<close>

lemma LO_take_bit: "LO x = take_bit 32 x"
proof -
  have m: "(0xFFFFFFFF :: u64) = mask 32"
    by (simp add: mask_eq_exp_minus_1)
  show ?thesis
    unfolding LO_def m by (rule take_bit_eq_mask [symmetric])
qed

lemma unat_LO: "unat (LO x) = unat x mod 2 ^ 32"
  unfolding LO_take_bit unsigned_take_bit_eq by (rule take_bit_eq_mod)

lemma unat_HI: "unat (HI x) = unat x div 2 ^ 32"
  unfolding HI_def unat_drop_bit_eq by (rule drop_bit_eq_div)

lemma unat_shl32: "unat (push_bit 32 (x :: u64)) = (unat x mod 2 ^ 32) * 2 ^ 32"
proof -
  have "unat (push_bit 32 x) = take_bit 64 (push_bit 32 (unat x))"
   by (simp only: unsigned_push_bit_eq) simp
  also have "\<dots> = (unat x * 2 ^ 32) mod (2 ^ 32 * 2 ^ 32)"
    by (simp only: take_bit_eq_mod push_bit_eq_mult) simp
  also have "\<dots> = (unat x mod 2 ^ 32) * 2 ^ 32"
    by (simp only: mult_mod_left)
  finally show ?thesis .
qed

lemma LO_OR_shl32: "LO p OR push_bit 32 (x :: u64) = LO p + push_bit 32 x"
proof (rule disjunctive_add [symmetric])
  fix n
  show "\<not> bit (LO p) n \<or> \<not> bit (push_bit 32 x) n"
    by (auto simp add: LO_take_bit bit_take_bit_iff bit_push_bit_iff)
qed

lemma unat_LO_OR_shl32:
  "unat (LO p OR push_bit 32 (x :: u64)) = unat p mod 2 ^ 32 + (unat x mod 2 ^ 32) * 2 ^ 32"
proof -
  have "unat p mod 2 ^ 32 + (unat x mod 2 ^ 32) * 2 ^ 32 < 2 ^ 32 + (2 ^ 32 - 1) * (2 ^ 32 :: nat)"
    by (intro add_less_le_mono mult_right_mono) (simp_all add: Suc_leI less_Suc_eq_le)
  then have "unat (LO p) + unat (push_bit 32 x) < 2 ^ LENGTH(64)"
    by (simp add: unat_LO unat_shl32)
  then have "unat (LO p + push_bit 32 x) = unat (LO p) + unat (push_bit 32 x)"
    by (simp only: unat_add_lem)
  then show ?thesis
    by (simp only: LO_OR_shl32 unat_LO unat_shl32)
qed

lemma unat_mul32:
  fixes x y :: u64
  assumes "unat x < 2 ^ 32" "unat y < 2 ^ 32"
  shows "unat (x * y) = unat x * unat y"
proof -
  have "unat x * unat y < 2 ^ 32 * 2 ^ 32"
    using assms by (intro mult_strict_mono) simp_all
  then have "unat x * unat y < 2 ^ LENGTH(64)" by simp
  then show ?thesis by (simp only: unat_mult_lem)
qed


lemma unat_add_small:
  fixes x y :: u64
  assumes "unat x + unat y < 2 ^ 64"
  shows "unat (x + y) = unat x + unat y"
proof -
  from assms have "unat x + unat y < 2 ^ LENGTH(64)" by simp
  then show ?thesis by (simp only: unat_add_lem)
qed

lemma unat_u64_less: "unat (x :: u64) < 2 ^ 64"
  using unsigned_less [of x, where 'a = nat] by simp

lemma half_less: "(n :: nat) < 2 ^ 64 \<Longrightarrow> n div 2 ^ 32 < 2 ^ 32"
  by (rule less_mult_imp_div_less) simp

lemma mul64_identity:
  fixes a0 a1 b0 b1 :: nat
  defines "K \<equiv> 2 ^ 32"
  defines "X \<equiv> a0 * b0 div K + a0 * b1 mod K + a1 * b0 mod K"
  defines "Y \<equiv> a0 * b1 div K + a1 * b0 div K + a1 * b1 mod K + X div K"
  shows "(Y + (a1 * b1 div K) * K) * (K * K) + (a0 * b0 mod K + (X mod K) * K)
          = (a1 * K + a0) * (b1 * K + b0)"
proof -
  define q00 r00 where "q00 = a0 * b0 div K" and "r00 = a0 * b0 mod K"
  define q01 r01 where "q01 = a0 * b1 div K" and "r01 = a0 * b1 mod K"
  define q10 r10 where "q10 = a1 * b0 div K" and "r10 = a1 * b0 mod K"
  define q11 r11 where "q11 = a1 * b1 div K" and "r11 = a1 * b1 mod K"
  define qx rx where "qx = X div K" and "rx = X mod K"
  have e: "a0 * b0 = q00 * K + r00" "a0 * b1 = q01 * K + r01"
    "a1 * b0 = q10 * K + r10" "a1 * b1 = q11 * K + r11"
    by (simp_all add: q00_def r00_def q01_def r01_def q10_def r10_def q11_def r11_def)
  have x: "qx * K + rx = q00 + r01 + r10"
    unfolding qx_def rx_def by (simp add: X_def q00_def r01_def r10_def)
  have "(a1 * K + a0) * (b1 * K + b0)
      = (a1 * b1) * (K * K) + (a0 * b1 + a1 * b0) * K + a0 * b0"
    by (simp add: algebra_simps)
  also have "\<dots> = (q11 * K + r11) * (K * K) + (q01 * K + r01 + (q10 * K + r10)) * K
      + (q00 * K + r00)"
    by (simp only: e)
  also have "\<dots> = (q01 + q10 + r11 + q11 * K) * (K * K) + (q00 + r01 + r10) * K + r00"
    by (simp add: algebra_simps)
  also have "\<dots> = (q01 + q10 + r11 + q11 * K) * (K * K) + (qx * K + rx) * K + r00"
    by (simp only: x)
  also have "\<dots> = (q01 + q10 + r11 + qx + q11 * K) * (K * K) + (r00 + rx * K)"
    by (simp add: algebra_simps)
  finally show ?thesis
    by (simp add: Y_def q01_def q10_def r11_def qx_def q11_def r00_def rx_def)
qed

lemma val_mul64_portable: "val (mul64_portable a b) = unat a * unat b"
proof -
  define K :: nat where "K = 2 ^ 32"
  have uLO: "unat (LO w) = unat w mod K" for w by (simp add: K_def unat_LO)
  have uHI: "unat (HI w) = unat w div K" for w by (simp add: K_def unat_HI)
  have KK: "K * K = 2 ^ 64" by (simp add: K_def)
  have add_small: "unat (u + v) = unat u + unat v" if "unat u + unat v < 4 * K" for u v :: u64
    using that by (intro unat_add_small) (simp add: K_def)
  have half: "unat w div K < K" for w :: u64
    using half_less [OF unat_u64_less [of w]] by (simp add: K_def)
  have r: "n mod K < K" for n by (simp add: K_def)
  define a0 a1 b0 b1 where "a0 = unat a mod K" and "a1 = unat a div K"
    and "b0 = unat b mod K" and "b1 = unat b div K"
  have a: "unat a = a1 * K + a0" and b: "unat b = b1 * K + b0"
    by (simp_all add: a0_def a1_def b0_def b1_def)
  have lt: "a0 < K" "b0 < K" "a1 < K" "b1 < K"
    by (simp_all add: a0_def a1_def b0_def b1_def r half)
  define p00 p01 p10 p11 where "p00 = LO a * LO b" and "p01 = LO a * HI b"
    and "p10 = HI a * LO b" and "p11 = HI a * HI b"
  have mul_small: "unat (u * v) = unat u * unat v" if "unat u < K" "unat v < K" for u v :: u64
    using that by (intro unat_mul32) (simp_all add: K_def)
  have p: "unat p00 = a0 * b0" "unat p01 = a0 * b1" "unat p10 = a1 * b0" "unat p11 = a1 * b1"
    unfolding p00_def p01_def p10_def p11_def a0_def a1_def b0_def b1_def
    by (simp_all add: mul_small uLO uHI r half)
  have q: "a0 * b0 div K < K" "a0 * b1 div K < K" "a1 * b0 div K < K" "a1 * b1 div K < K"
    using half [of p00] half [of p01] half [of p10] half [of p11] by (simp_all add: p)
  define x where "x = HI p00 + LO p01 + LO p10"
  define X where "X = a0 * b0 div K + a0 * b1 mod K + a1 * b0 mod K"
  have X3: "X < 3 * K"
    unfolding X_def using q(1) r [of "a0 * b1"] r [of "a1 * b0"] by linarith
  have ux: "unat x = X"
  proof -
    have "unat (HI p00) + unat (LO p01) < 4 * K"
      unfolding uHI uLO p using q(1) r [of "a0 * b1"] by linarith
    then have 1: "unat (HI p00 + LO p01) = a0 * b0 div K + a0 * b1 mod K"
      by (simp only: add_small uHI uLO p)
    have "unat (HI p00 + LO p01) + unat (LO p10) < 4 * K"
      unfolding 1 uLO p using q(1) r [of "a0 * b1"] r [of "a1 * b0"] by linarith
    then show ?thesis
      unfolding x_def X_def by (simp only: add_small 1 uLO p)
  qed
  define y where "y = HI p01 + HI p10 + LO p11 + HI x"
  define Y where "Y = a0 * b1 div K + a1 * b0 div K + a1 * b1 mod K + X div K"
  have "0 < K" by (simp add: K_def)
  with X3 have Xq: "X div K < 3"
    by (simp add: less_mult_imp_div_less)
  have "3 \<le> K" by (simp add: K_def)
  have uy: "unat y = Y"
  proof -
    have "unat (HI p01) + unat (HI p10) < 4 * K"
      unfolding uHI p using q by linarith
    then have 1: "unat (HI p01 + HI p10) = a0 * b1 div K + a1 * b0 div K"
      by (simp only: add_small uHI p)
    have "unat (HI p01 + HI p10) + unat (LO p11) < 4 * K"
      unfolding 1 uLO p using q r [of "a1 * b1"] by linarith
    then have 2: "unat (HI p01 + HI p10 + LO p11)
        = a0 * b1 div K + a1 * b0 div K + a1 * b1 mod K"
      by (simp only: add_small 1 uLO p)
    have "unat (HI p01 + HI p10 + LO p11) + unat (HI x) < 4 * K"
      unfolding 2 uHI ux using q r [of "a1 * b1"] Xq \<open>3 \<le> K\<close> by linarith
    then show ?thesis
      unfolding y_def Y_def by (simp only: add_small 2 uHI ux)
  qed
  define H where "H = Y + (a1 * b1 div K) * K"
  define L where "L = a0 * b0 mod K + (X mod K) * K"
  have id: "H * (K * K) + L = unat a * unat b"
    unfolding H_def L_def Y_def X_def a b K_def by (rule mul64_identity)
  have "unat a * unat b < 2 ^ 64 * 2 ^ 64"
    by (intro mult_strict_mono unat_u64_less) simp_all
  with id have "H * 2 ^ 64 < 2 ^ 64 * 2 ^ 64"
    by (simp add: KK)
  then have H: "H < 2 ^ 64" by simp
  have ushl: "unat (push_bit 32 w) = (unat w mod K) * K" for w :: u64
    by (simp add: K_def unat_shl32)
  have "unat (LO p00 OR push_bit 32 x) = unat p00 mod K + (unat x mod K) * K"
    by (simp add: K_def unat_LO_OR_shl32)
  then have ulo: "unat (LO p00 OR push_bit 32 x) = L"
    by (simp only: L_def p ux)
  have "unat (push_bit 32 (HI p11)) = (a1 * b1 div K) * K"
    using q(4) by (simp add: ushl uHI p)
  then have uhi: "unat (y + push_bit 32 (HI p11)) = H"
    using H by (subst unat_add_small) (simp_all add: uy H_def)
  have "mul64_portable a b = \<lparr> lo = LO p00 OR push_bit 32 x, hi = y + push_bit 32 (HI p11) \<rparr>"
    by (simp add: mul64_portable_def Let_def p00_def p01_def p10_def p11_def x_def y_def)
  then have "val (mul64_portable a b) = H * 2 ^ 64 + L"
    by (simp add: val_def ulo uhi)
  with id show ?thesis by (simp add: KK)
qed


text \<open>
  C1. For all 64-bit \<open>a\<close> and \<open>b\<close>, the limbs returned by \<^verbatim>\<open>mul64_portable(a, b)\<close>
  satisfy \<open>hi \<sqdot> 2\<^sup>6\<^sup>4 + lo = a \<sqdot> b\<close>, the exact product; and the fixed boundary cases
  of the test battery give the stated limbs: (0,0), (1,1), (1, max), (max, 1),
  (max, max) with result (lo 1, hi \<open>2\<^sup>6\<^sup>4 - 2\<close>), the square of \<open>2\<^sup>3\<^sup>2 + 1\<close>, and the two
  adjacent-to-max pairs, which agree with each other.
\<close>

theorem mul64_portable_exact:
  "unat (hi (mul64_portable a b)) * 2 ^ 64 + unat (lo (mul64_portable a b)) = unat a * unat b
   \<and> mul64_portable 0 0 = \<lparr> lo = 0, hi = 0 \<rparr>
   \<and> mul64_portable 1 1 = \<lparr> lo = 1, hi = 0 \<rparr>
   \<and> mul64_portable 1 0xFFFFFFFFFFFFFFFF = \<lparr> lo = 0xFFFFFFFFFFFFFFFF, hi = 0 \<rparr>
   \<and> mul64_portable 0xFFFFFFFFFFFFFFFF 1 = \<lparr> lo = 0xFFFFFFFFFFFFFFFF, hi = 0 \<rparr>
   \<and> mul64_portable 0xFFFFFFFFFFFFFFFF 0xFFFFFFFFFFFFFFFF = \<lparr> lo = 1, hi = 0xFFFFFFFFFFFFFFFE \<rparr>
   \<and> mul64_portable 0x100000001 0x100000001 = \<lparr> lo = 0x200000001, hi = 1 \<rparr>
   \<and> mul64_portable 0xFFFFFFFFFFFFFFFE 0xFFFFFFFFFFFFFFFD = \<lparr> lo = 6, hi = 0xFFFFFFFFFFFFFFFB \<rparr>
   \<and> mul64_portable 0xFFFFFFFFFFFFFFFD 0xFFFFFFFFFFFFFFFE = \<lparr> lo = 6, hi = 0xFFFFFFFFFFFFFFFB \<rparr>"
proof -
  have general: "unat (hi (mul64_portable a b)) * 2 ^ 64 + unat (lo (mul64_portable a b))
      = unat a * unat b"
    using val_mul64_portable [of a b] by (simp only: val_def)
  have fixed: "mul64_portable 0 0 = \<lparr> lo = 0, hi = 0 \<rparr>"
    "mul64_portable 1 1 = \<lparr> lo = 1, hi = 0 \<rparr>"
    "mul64_portable 1 0xFFFFFFFFFFFFFFFF = \<lparr> lo = 0xFFFFFFFFFFFFFFFF, hi = 0 \<rparr>"
    "mul64_portable 0xFFFFFFFFFFFFFFFF 1 = \<lparr> lo = 0xFFFFFFFFFFFFFFFF, hi = 0 \<rparr>"
    "mul64_portable 0xFFFFFFFFFFFFFFFF 0xFFFFFFFFFFFFFFFF = \<lparr> lo = 1, hi = 0xFFFFFFFFFFFFFFFE \<rparr>"
    "mul64_portable 0x100000001 0x100000001 = \<lparr> lo = 0x200000001, hi = 1 \<rparr>"
    "mul64_portable 0xFFFFFFFFFFFFFFFE 0xFFFFFFFFFFFFFFFD = \<lparr> lo = 6, hi = 0xFFFFFFFFFFFFFFFB \<rparr>"
    "mul64_portable 0xFFFFFFFFFFFFFFFD 0xFFFFFFFFFFFFFFFE = \<lparr> lo = 6, hi = 0xFFFFFFFFFFFFFFFB \<rparr>"
    by (simp_all add: mul64_portable_def LO_def HI_def)
  from general fixed show ?thesis by (intro conjI)
qed

section \<open>Values as numbers\<close>

lemma val_less: "val v < 2 ^ 128"
proof -
  have "unat (hi v) \<le> 2 ^ 64 - 1" "unat (lo v) < 2 ^ 64"
    using unat_u64_less [of "hi v"] unat_u64_less [of "lo v"] by simp_all
  then have "unat (hi v) * 2 ^ 64 + unat (lo v) < (2 ^ 64 - 1) * 2 ^ 64 + 2 ^ 64"
    by (intro add_le_less_mono mult_right_mono) simp_all
  then show ?thesis by (simp add: val_def)
qed

lemma val_div: "val v div 2 ^ 64 = unat (hi v)"
  using unat_u64_less [of "lo v"] by (simp add: val_def)

lemma val_mod: "val v mod 2 ^ 64 = unat (lo v)"
  using unat_u64_less [of "lo v"] by (simp add: val_def)

lemma val_inj: "val u = val v \<Longrightarrow> u = v"
proof -
  assume e: "val u = val v"
  have "unat (hi u) = unat (hi v)" using e by (simp only: flip: val_div)
  moreover have "unat (lo u) = unat (lo v)" using e by (simp only: flip: val_mod)
  ultimately have "hi u = hi v" "lo u = lo v"
    by (simp_all add: word_unat_eq_iff)
  then show ?thesis by simp
qed

section \<open>The three substrates of the 64 \<times> 64 primitive\<close>

lemma val_umul128:
  "val (let (lo', hi') = umul128 a b in \<lparr> lo = lo', hi = hi' \<rparr>) = unat a * unat b"
proof -
  define P where "P = unat a * unat b"
  have P: "uint a * uint b = int P"
    by (simp add: P_def)
  have "P < 2 ^ 64 * 2 ^ 64"
    unfolding P_def by (intro mult_strict_mono unat_u64_less) simp_all
  then have q: "P div 2 ^ 64 < 2 ^ 64"
    by (intro less_mult_imp_div_less) simp
  have "int P mod 2 ^ 64 = int (P mod 2 ^ 64)"
    by (simp add: zmod_int)
  then have 1: "unat (word_of_int (int P mod 2 ^ 64) :: u64) = P mod 2 ^ 64"
    by (simp add: unat_of_nat)
  have "int P div 2 ^ 64 = int (P div 2 ^ 64)"
    by (simp add: zdiv_int)
  then have 2: "unat (word_of_int (int P div 2 ^ 64) :: u64) = P div 2 ^ 64"
    using q by (simp add: unat_of_nat)
  have "(P div 2 ^ 64) * 2 ^ 64 + P mod 2 ^ 64 = P" by simp
  with 1 2 show ?thesis
    unfolding umul128_def P P_def [symmetric] by (simp add: val_def)
qed

lemma val_int128:
  "val (let prod = (ucast a :: 128 word) * (ucast (b :: u64) :: 128 word)
        in \<lparr> lo = ucast prod, hi = ucast (drop_bit 64 prod) \<rparr>) = unat (a :: u64) * unat b"
proof -
  define P where "P = unat a * unat b"
  have "P < 2 ^ 64 * 2 ^ 64"
    unfolding P_def by (intro mult_strict_mono unat_u64_less) simp_all
  then have P128: "P < 2 ^ 128" by simp
  from \<open>P < 2 ^ 64 * 2 ^ 64\<close> have q: "P div 2 ^ 64 < 2 ^ 64"
    by (intro less_mult_imp_div_less) simp
  define prod where "prod = (ucast a :: 128 word) * (ucast b :: 128 word)"
  have ua: "unat (ucast w :: 128 word) = unat w" for w :: u64
  proof -
    have "unat w < 2 ^ 128"
      using unat_u64_less [of w] by simp
    then show ?thesis
      by (simp add: unsigned_ucast_eq take_bit_eq_mod)
  qed
  have up: "unat prod = P"
    using P128 unfolding prod_def P_def
    by (simp add: unat_word_ariths ua)
  have 1: "unat (ucast prod :: u64) = P mod 2 ^ 64"
    by (simp add: unsigned_ucast_eq up take_bit_eq_mod)
  have "unat (drop_bit 64 prod) = P div 2 ^ 64"
    unfolding unat_drop_bit_eq up by (rule drop_bit_eq_div)
  then have 2: "unat (ucast (drop_bit 64 prod) :: u64) = P div 2 ^ 64"
    using q unfolding unsigned_ucast_eq by (simp add: take_bit_eq_mod)
  have "(P div 2 ^ 64) * 2 ^ 64 + P mod 2 ^ 64 = P" by simp
  with 1 2 show ?thesis
    unfolding prod_def [symmetric] P_def [symmetric] by (simp add: val_def Let_def)
qed

lemma val_mul64: "val (mul64 s a b) = unat a * unat b"
  by (cases s) (simp_all only: mul64_def substrate.case val_umul128 val_int128 val_mul64_portable)

lemma mul64_eq_portable: "mul64 s a b = mul64_portable a b"
  by (rule val_inj) (simp only: val_mul64 val_mul64_portable)

text \<open>
  C2. Whichever body the build selects for \<^verbatim>\<open>mul64\<close> (the MSVC intrinsic, the native
  128-bit integer, or the portable fallback), \<^verbatim>\<open>mul64(a, b)\<close> is the value
  \<^verbatim>\<open>mul64_portable(a, b)\<close>, for all 64-bit \<open>a\<close> and \<open>b\<close> and in both limbs.
\<close>

theorem mul64_substrates_agree:
  "mul64 MSVC a b = mul64_portable a b
   \<and> mul64 INT128 a b = mul64_portable a b
   \<and> mul64 PORTABLE a b = mul64_portable a b
   \<and> lo (mul64 s a b) = lo (mul64_portable a b)
   \<and> hi (mul64 s a b) = hi (mul64_portable a b)"
  by (simp only: mul64_eq_portable)

section \<open>Addition is addition modulo \<open>2\<^sup>1\<^sup>2\<^sup>8\<close>\<close>

text \<open>The carry test of \<^verbatim>\<open>operator+=\<close>: the wrapped sum is below an operand exactly when the
  exact sum does not fit in 64 bits.\<close>

lemma carry_test:
  fixes x y :: u64
  shows "(x + y < y) = (2 ^ 64 \<le> unat x + unat y)"
proof (cases "unat x + unat y < 2 ^ 64")
  case True
  then have "unat (x + y) = unat x + unat y" by (rule unat_add_small)
  with True show ?thesis by (simp add: word_less_nat_alt)
next
  case False
  have "unat x + unat y < 2 ^ 64 + 2 ^ 64"
    using unat_u64_less [of x] unat_u64_less [of y] by linarith
  with False have "(unat x + unat y) mod 2 ^ 64 = unat x + unat y - 2 ^ 64"
    by (simp add: mod_if)
  then have "unat (x + y) = unat x + unat y - 2 ^ 64"
    by (simp add: unat_word_ariths)
  with False unat_u64_less [of x] show ?thesis
    by (simp add: word_less_nat_alt)
qed

lemma unat_sum_split:
  fixes x y :: u64
  shows "unat x + unat y = unat (of_bool (x + y < y) :: u64) * 2 ^ 64 + unat (x + y)"
proof (cases "unat x + unat y < 2 ^ 64")
  case True
  then have "unat (x + y) = unat x + unat y" by (rule unat_add_small)
  with True show ?thesis by (simp add: carry_test)
next
  case False
  have "unat x + unat y < 2 ^ 64 + 2 ^ 64"
    using unat_u64_less [of x] unat_u64_less [of y] by linarith
  with False have "(unat x + unat y) mod 2 ^ 64 = unat x + unat y - 2 ^ 64"
    by (simp add: mod_if)
  then have "unat (x + y) = unat x + unat y - 2 ^ 64"
    by (simp add: unat_word_ariths)
  with False show ?thesis by (simp add: carry_test)
qed

lemma limbs_mod_gen:
  fixes h l M :: nat
  assumes "l < M"
  shows "(h * M + l) mod (M * M) = (h mod M) * M + l"
  using assms by (simp add: mod_mult2_eq)

lemma limbs_mod:
  fixes h l :: nat
  assumes "l < 2 ^ 64"
  shows "(h * 2 ^ 64 + l) mod 2 ^ 128 = (h mod 2 ^ 64) * 2 ^ 64 + l"
  using limbs_mod_gen [OF assms, of h] by simp

lemma val_limbs: "val \<lparr> lo = l, hi = h \<rparr> = unat h * 2 ^ 64 + unat l"
  by (simp add: val_def)

lemma add_assign_limbs:
  "add_assign v other =
     \<lparr> lo = lo v + lo other, hi = hi v + (hi other + of_bool (lo v + lo other < lo other)) \<rparr>"
  by (simp add: add_assign_def Let_def)

lemma val_add_assign: "val (add_assign v other) = (val v + val other) mod 2 ^ 128"
proof -
  define c :: u64 where "c = of_bool (lo v + lo other < lo other)"
  have "val (add_assign v other)
      = unat (hi v + (hi other + c)) * 2 ^ 64 + unat (lo v + lo other)"
    by (simp only: add_assign_limbs val_limbs c_def)
  also have "\<dots> = ((unat (hi v) + unat (hi other) + unat c) mod 2 ^ 64) * 2 ^ 64
      + unat (lo v + lo other)"
    by (simp add: unat_word_ariths mod_simps add.assoc)
  also have "\<dots> = ((unat (hi v) + unat (hi other) + unat c) * 2 ^ 64
      + unat (lo v + lo other)) mod 2 ^ 128"
    by (rule limbs_mod [symmetric]) (rule unat_u64_less)
  also have "(unat (hi v) + unat (hi other) + unat c) * 2 ^ 64 + unat (lo v + lo other)
      = (unat (hi v) + unat (hi other)) * 2 ^ 64 + (unat (lo v) + unat (lo other))"
    unfolding unat_sum_split [of "lo v" "lo other"] c_def by (simp add: algebra_simps)
  also have "\<dots> = val v + val other"
    by (simp add: val_def algebra_simps)
  finally show ?thesis .
qed

lemma add_assign_u64_eq: "add_assign_u64 v w = add_assign v \<lparr> lo = w, hi = 0 \<rparr>"
  by (simp add: add_assign_u64_def add_assign_def)

text \<open>
  C5. For all values \<open>a\<close> and \<open>b\<close>, \<^verbatim>\<open>a + b\<close> is the sum of their numeric values modulo
  \<open>2\<^sup>1\<^sup>2\<^sup>8\<close>: the low limb is the wrapped sum of the low limbs, and the high limb is the
  wrapped sum of the high limbs plus a carry that is 1 exactly when the low-limb
  addition wraps. A bare 64-bit right operand (and the friend form with a bare left
  operand) behaves as a value with \<open>hi = 0\<close>. In particular
  \<open>(2\<^sup>6\<^sup>4 - 1, 0) + (1, 0) == (0, 1)\<close>.
\<close>

theorem add_mod_2_128:
  "val (add a b) = (val a + val b) mod 2 ^ 128
   \<and> lo (add a b) = lo a + lo b
   \<and> hi (add a b) = hi a + hi b + of_bool (2 ^ 64 \<le> unat (lo a) + unat (lo b))
   \<and> add_u64 a w = add a (u128_of_limbs w 0)
   \<and> val (add_u64 a w) = (val a + unat w) mod 2 ^ 128
   \<and> u64_add w b = add (u128_of_limbs w 0) b
   \<and> val (u64_add w b) = (unat w + val b) mod 2 ^ 128
   \<and> eq (add (u128_of_limbs 0xFFFFFFFFFFFFFFFF 0) (u128_of_limbs 1 0)) (u128_of_limbs 0 1)"
proof -
  have 1: "val (add a b) = (val a + val b) mod 2 ^ 128"
    by (simp only: add_def val_add_assign)
  have 2: "lo (add a b) = lo a + lo b"
    by (simp add: add_def add_assign_limbs)
  have 3: "hi (add a b) = hi a + hi b + of_bool (2 ^ 64 \<le> unat (lo a) + unat (lo b))"
    by (simp only: add_def add_assign_limbs carry_test u128.select_convs add.assoc)
  have 4: "add_u64 a w = add a (u128_of_limbs w 0)"
    by (simp only: add_u64_def add_def add_assign_u64_eq u128_of_limbs_def)
  have 5: "val (add_u64 a w) = (val a + unat w) mod 2 ^ 128"
    by (simp add: 4 add_def val_add_assign u128_of_limbs_def val_limbs)
  have 6: "u64_add w b = add (u128_of_limbs w 0) b"
    by (simp only: u64_add_def add_def u128_of_u64_def u128_of_limbs_def)
  have 7: "val (u64_add w b) = (unat w + val b) mod 2 ^ 128"
    by (simp add: 6 add_def val_add_assign u128_of_limbs_def val_limbs)
  have 8: "eq (add (u128_of_limbs 0xFFFFFFFFFFFFFFFF 0) (u128_of_limbs 1 0)) (u128_of_limbs 0 1)"
    by (simp add: eq_def add_def add_assign_def u128_of_limbs_def)
  from 1 2 3 4 5 6 7 8 show ?thesis by (intro conjI)
qed

text \<open>
  The copy matters. Applied to one object on both sides (\<^verbatim>\<open>x += x\<close>), the carry test
  compares the new low limb with itself and never fires, so the carry out of the low
  limb is lost; \<^verbatim>\<open>x + x\<close> keeps it.
\<close>

lemma add_assign_self_no_carry:
  "add_assign_self v = \<lparr> lo = lo v + lo v, hi = hi v + hi v \<rparr>"
  by (simp add: add_assign_self_def Let_def)

lemma add_assign_self_example:
  "add_assign_self \<lparr> lo = 0x8000000000000000, hi = 0 \<rparr> = \<lparr> lo = 0, hi = 0 \<rparr>
   \<and> add \<lparr> lo = 0x8000000000000000, hi = 0 \<rparr> \<lparr> lo = 0x8000000000000000, hi = 0 \<rparr>
       = \<lparr> lo = 0, hi = 1 \<rparr>"
  by (simp add: add_assign_self_def add_def add_assign_def)

section \<open>Shifts as multiplication and division by powers of two\<close>

lemma bit_word128:
  "bit (word128 v) i = (if i < 64 then bit (lo v) i else bit (hi v) (i - 64))"
  by (auto simp add: word128_def bit_or_iff bit_push_bit_iff bit_ucast_iff
      dest: bit_imp_le_length)

lemma unat_word128: "unat (word128 v) = val v"
proof -
  have "word128 v = push_bit 64 (ucast (hi v)) + ucast (lo v)"
    unfolding word128_def
    by (rule disjunctive_add [symmetric])
      (auto simp add: bit_push_bit_iff bit_ucast_iff dest: bit_imp_le_length)
  also have "\<dots> = word_of_nat (val v)"
    by (simp add: val_def push_bit_eq_mult)
  finally have "unat (word128 v) = val v mod 2 ^ 128"
    by (simp add: unat_of_nat)
  with val_less [of v] show ?thesis by simp
qed

text \<open>Comparisons and differences of shift counts, read as natural numbers.\<close>

lemma count_facts:
  fixes n :: unsigned
  shows "(n = 0) = (unat n = 0)" "(0 < n) = (0 < unat n)"
    "(64 \<le> n) = (64 \<le> unat n)" "(128 \<le> n) = (128 \<le> unat n)"
  by (simp_all add: word_le_nat_alt word_less_nat_alt unat_eq_0)

lemma count_minus_64:
  fixes n :: unsigned
  assumes "64 \<le> unat n"
  shows "unat (n - 64) = unat n - 64"
  using assms by (simp add: unat_sub word_le_nat_alt)

lemma count_64_minus:
  fixes n :: unsigned
  assumes "unat n \<le> 64"
  shows "unat (64 - n) = 64 - unat n"
  using assms by (simp add: unat_sub word_le_nat_alt)

text \<open>The result of a left shift in each range of the count.\<close>

lemma shl_assign_limbs:
  fixes n :: unsigned
  defines "k \<equiv> unat n"
  shows "shl_assign v n =
    (if k = 0 then v
     else if k < 64 then
       \<lparr> lo = push_bit k (lo v), hi = push_bit k (hi v) OR drop_bit (64 - k) (lo v) \<rparr>
     else if k < 128 then \<lparr> lo = 0, hi = push_bit (k - 64) (lo v) \<rparr>
     else \<lparr> lo = 0, hi = 0 \<rparr>)"
proof -
  consider "k = 0" | "0 < k" "k < 64" | "k = 64" | "64 < k" "k < 128" | "128 \<le> k"
    by linarith
  then show ?thesis
  proof cases
    case 1
    then show ?thesis by (simp add: shl_assign_def count_facts flip: k_def)
  next
    case 2
    then show ?thesis
      by (simp add: shl_assign_def count_facts count_64_minus flip: k_def)
  next
    case 3
    then show ?thesis
      by (simp add: shl_assign_def count_facts count_minus_64 flip: k_def)
  next
    case 4
    then show ?thesis
      by (simp add: shl_assign_def count_facts count_minus_64 count_64_minus flip: k_def)
  next
    case 5
    then show ?thesis by (simp add: shl_assign_def count_facts flip: k_def)
  qed
qed

lemma shr_assign_limbs:
  fixes n :: unsigned
  defines "k \<equiv> unat n"
  shows "shr_assign v n =
    (if k = 0 then v
     else if k < 64 then
       \<lparr> lo = drop_bit k (lo v) OR push_bit (64 - k) (hi v), hi = drop_bit k (hi v) \<rparr>
     else if k < 128 then \<lparr> lo = drop_bit (k - 64) (hi v), hi = 0 \<rparr>
     else \<lparr> lo = 0, hi = 0 \<rparr>)"
proof -
  consider "k = 0" | "0 < k" "k < 64" | "k = 64" | "64 < k" "k < 128" | "128 \<le> k"
    by linarith
  then show ?thesis
  proof cases
    case 1
    then show ?thesis by (simp add: shr_assign_def count_facts flip: k_def)
  next
    case 2
    then show ?thesis
      by (simp add: shr_assign_def count_facts count_64_minus flip: k_def)
  next
    case 3
    then show ?thesis
      by (simp add: shr_assign_def count_facts count_minus_64 flip: k_def)
  next
    case 4
    then show ?thesis
      by (simp add: shr_assign_def count_facts count_minus_64 count_64_minus flip: k_def)
  next
    case 5
    then show ?thesis by (simp add: shr_assign_def count_facts flip: k_def)
  qed
qed

lemma word128_limbs:
  "bit (word128 \<lparr> lo = l, hi = h \<rparr>) i = (if i < 64 then bit l i else bit h (i - 64))"
  by (simp add: bit_word128)

lemma word128_shl_assign: "word128 (shl_assign v n) = push_bit (unat n) (word128 v)"
proof (rule bit_word_eqI)
  fix i
  assume "i < LENGTH(128)"
  then have i: "i < 128" by simp
  define k where "k = unat n"
  consider "k = 0" | "0 < k" "k < 64" | "64 \<le> k" "k < 128" | "128 \<le> k"
    by linarith
  then show "bit (word128 (shl_assign v n)) i = bit (push_bit (unat n) (word128 v)) i"
  proof cases
    case 1
    then show ?thesis by (simp add: shl_assign_limbs flip: k_def)
  next
    case 2
    then show ?thesis
      using i
      by (auto simp add: shl_assign_limbs word128_limbs bit_word128 bit_push_bit_iff
          bit_or_iff bit_drop_bit_eq ac_simps simp flip: k_def dest: bit_imp_le_length)
  next
    case 3
    then show ?thesis
      using i
      by (auto simp add: shl_assign_limbs word128_limbs bit_word128 bit_push_bit_iff
          simp flip: k_def dest: bit_imp_le_length)
  next
    case 4
    then show ?thesis
      using i
      by (auto simp add: shl_assign_limbs word128_limbs bit_push_bit_iff simp flip: k_def)
  qed
qed

lemma word128_shr_assign: "word128 (shr_assign v n) = drop_bit (unat n) (word128 v)"
proof (rule bit_word_eqI)
  fix i
  assume "i < LENGTH(128)"
  then have i: "i < 128" by simp
  define k where "k = unat n"
  consider "k = 0" | "0 < k" "k < 64" | "64 \<le> k" "k < 128" | "128 \<le> k"
    by linarith
  then show "bit (word128 (shr_assign v n)) i = bit (drop_bit (unat n) (word128 v)) i"
  proof cases
    case 1
    then show ?thesis by (simp add: shr_assign_limbs flip: k_def)
  next
    case 2
    then show ?thesis
      using i
      by (auto simp add: shr_assign_limbs word128_limbs bit_word128 bit_push_bit_iff
          bit_or_iff bit_drop_bit_eq ac_simps simp flip: k_def dest: bit_imp_le_length)
  next
    case 3
    then show ?thesis
      using i
      by (auto simp add: shr_assign_limbs word128_limbs bit_word128 bit_drop_bit_eq
          simp flip: k_def dest: bit_imp_le_length)
  next
    case 4
    then show ?thesis
      using i
      by (auto simp add: shr_assign_limbs word128_limbs bit_word128 bit_drop_bit_eq
          simp flip: k_def dest: bit_imp_le_length)
  qed
qed

lemma val_shl_assign: "val (shl_assign v n) = (val v * 2 ^ unat n) mod 2 ^ 128"
proof -
  have "val (shl_assign v n) = unat (push_bit (unat n) (word128 v))"
    by (simp only: word128_shl_assign flip: unat_word128)
  also have "\<dots> = take_bit 128 (push_bit (unat n) (val v))"
    by (simp only: unsigned_push_bit_eq unat_word128) simp
  also have "\<dots> = (val v * 2 ^ unat n) mod 2 ^ 128"
    by (simp only: take_bit_eq_mod push_bit_eq_mult)
  finally show ?thesis .
qed

lemma val_shr_assign: "val (shr_assign v n) = val v div 2 ^ unat n"
proof -
  have "val (shr_assign v n) = unat (drop_bit (unat n) (word128 v))"
    by (simp only: word128_shr_assign flip: unat_word128)
  also have "\<dots> = drop_bit (unat n) (val v)"
    by (simp only: unat_drop_bit_eq unat_word128)
  also have "\<dots> = val v div 2 ^ unat n"
    by (rule drop_bit_eq_div)
  finally show ?thesis .
qed

text \<open>
  The limb shifts of the last step only ever see counts between 1 and 63: a C++ shift of
  a 64-bit operand by 64 or more has no defined result, and no count reaches one.
\<close>

lemma limb_shift_counts:
  fixes n m :: unsigned
  assumes "n < 128" and "m = (if 64 \<le> n then n - 64 else n)" and "0 < m"
  shows "unat m < 64 \<and> 0 < unat (64 - m) \<and> unat (64 - m) < 64"
proof -
  have n: "unat n < 128"
    using assms(1) by (simp add: word_less_nat_alt)
  have m: "unat m < 64" "0 < unat m"
    using assms(2,3) n by (auto simp add: count_facts count_minus_64 split: if_splits)
  then have "unat (64 - m) = 64 - unat m"
    by (intro count_64_minus) simp
  with m show ?thesis by simp
qed

text \<open>
  C6. For every value \<open>v\<close> and every shift count \<open>n \<ge> 128\<close>, \<^verbatim>\<open>v << n\<close>, \<^verbatim>\<open>v >> n\<close> and
  the compound forms \<^verbatim>\<open><<=\<close>, \<^verbatim>\<open>>>=\<close> all yield (0, 0). The count is any value of the
  unsigned type.
\<close>

theorem shift_saturation:
  fixes n :: unsigned
  assumes "128 \<le> n"
  shows "shl v n = ZERO \<and> shr v n = ZERO \<and> shl_assign v n = ZERO \<and> shr_assign v n = ZERO"
proof -
  from assms have "128 \<le> unat n" by (simp add: count_facts)
  then show ?thesis
    by (simp add: shl_def shr_def shl_assign_limbs shr_assign_limbs ZERO_def)
qed

theorem shift_saturation_witness:
  "(128 :: unsigned) \<le> 200
   \<and> shl MAX_u128 200 = ZERO \<and> shr MAX_u128 200 = ZERO
   \<and> shl_assign MAX_u128 200 = ZERO \<and> shr_assign MAX_u128 200 = ZERO"
proof -
  have h: "(128 :: unsigned) \<le> 200" by simp
  from h shift_saturation [OF h, of MAX_u128] show ?thesis by (intro conjI) simp_all
qed

text \<open>
  C7. The build-time assertion: \<^verbatim>\<open>u128(1) << 64 == u128(0, 1)\<close>. Shifting the value one
  left by exactly 64 bits moves the low limb into the high limb.
\<close>

theorem shift_by_64_identity:
  "eq (shl (u128_of_u64 1) 64) (u128_of_limbs 0 1)
   \<and> shl (u128_of_u64 1) 64 = \<lparr> lo = 0, hi = 1 \<rparr>"
  by (simp add: eq_def shl_def shl_assign_def u128_of_u64_def u128_of_limbs_def)

text \<open>
  C10. For every value \<open>v\<close> and every count \<open>n\<close>, \<^verbatim>\<open>v << n\<close> stands for
  \<open>(hi \<sqdot> 2\<^sup>6\<^sup>4 + lo) \<sqdot> 2\<^sup>n mod 2\<^sup>1\<^sup>2\<^sup>8\<close> and \<^verbatim>\<open>v >> n\<close> for the floor of
  \<open>(hi \<sqdot> 2\<^sup>6\<^sup>4 + lo) / 2\<^sup>n\<close>. This is stated for all counts at once: for \<open>n \<ge> 128\<close>
  both right-hand sides are 0, the saturation case, so the two operators are total
  functions of any unsigned count.
\<close>

theorem shift_values:
  fixes n :: unsigned
  shows "val (shl v n) = (val v * 2 ^ unat n) mod 2 ^ 128
         \<and> val (shr v n) = val v div 2 ^ unat n"
  by (simp only: shl_def shr_def val_shl_assign val_shr_assign)

section \<open>Products modulo \<open>2\<^sup>1\<^sup>2\<^sup>8\<close>\<close>

lemma val_shl_64: "val (shl p 64) = (val p * 2 ^ 64) mod 2 ^ 128"
proof -
  have "unat (64 :: unsigned) = 64" by simp
  then show ?thesis by (simp only: shl_def val_shl_assign)
qed

lemma shl_64_limbs: "shl p 64 = \<lparr> lo = 0, hi = lo p \<rparr>"
  by (simp add: shl_def shl_assign_def)

lemma product_mod:
  fixes hu lu hv lv :: nat
  shows "((hu * 2 ^ 64 + lu) * (hv * 2 ^ 64 + lv)) mod 2 ^ 128
       = (lu * lv + lu * hv * 2 ^ 64 + hu * lv * 2 ^ 64) mod 2 ^ 128"
proof -
  have "(hu * 2 ^ 64 + lu) * (hv * 2 ^ 64 + lv)
      = (lu * lv + lu * hv * 2 ^ 64 + hu * lv * 2 ^ 64) + hu * hv * 2 ^ 128"
    by (simp add: algebra_simps)
  then show ?thesis by (simp only: mod_mult_self1)
qed

lemma val_mul: "val (mul s u v) = (val u * val v) mod 2 ^ 128"
proof -
  have "val (mul s u v)
      = (unat (lo u) * unat (lo v) + unat (lo u) * unat (hi v) * 2 ^ 64
          + unat (hi u) * unat (lo v) * 2 ^ 64) mod 2 ^ 128"
    by (simp add: mul_def Let_def val_add_assign val_shl_64 val_mul64 mod_simps)
  also have "\<dots> = ((unat (hi u) * 2 ^ 64 + unat (lo u)) * (unat (hi v) * 2 ^ 64 + unat (lo v)))
      mod 2 ^ 128"
    by (rule product_mod [symmetric])
  finally show ?thesis by (simp only: val_def)
qed

lemma val_mul_u64: "val (mul_u64 s v w) = (val v * unat w) mod 2 ^ 128"
proof -
  have "val (mul_u64 s v w)
      = (unat (lo v) * unat w + unat (hi v) * unat w * 2 ^ 64) mod 2 ^ 128"
    by (simp add: mul_u64_def Let_def add_def val_add_assign val_shl_64 val_mul64 mod_simps)
  also have "unat (lo v) * unat w + unat (hi v) * unat w * 2 ^ 64 = val v * unat w"
    by (simp add: val_def algebra_simps)
  finally show ?thesis .
qed

lemma mul_u64_eq_mul: "mul_u64 s v w = mul s v (u128_of_limbs w 0)"
proof (rule val_inj)
  have "val (u128_of_limbs w 0) = unat w"
    by (simp add: u128_of_limbs_def val_def)
  then show "val (mul_u64 s v w) = val (mul s v (u128_of_limbs w 0))"
    by (simp only: val_mul_u64 val_mul)
qed

text \<open>
  C3. For all values \<open>u\<close> and \<open>v\<close>, \<^verbatim>\<open>u * v\<close> stands for the product of the two numbers
  modulo \<open>2\<^sup>1\<^sup>2\<^sup>8\<close>, and it is the only 128-bit value that does. The operator adds three
  of the four 64 \<times> 64 partial products; leaving out \<open>hi \<sqdot> hi\<close> loses nothing of the
  result.
\<close>

theorem mul_mod_2_128:
  "val (mul s u v) = (val u * val v) mod 2 ^ 128
   \<and> (val r = (val u * val v) mod 2 ^ 128) = (r = mul s u v)
   \<and> mul s u v = add (add (mul64 s (lo u) (lo v)) (shl (mul64 s (lo u) (hi v)) 64))
                      (shl (mul64 s (hi u) (lo v)) 64)"
proof -
  have 1: "val (mul s u v) = (val u * val v) mod 2 ^ 128"
    by (rule val_mul)
  have 2: "(val r = (val u * val v) mod 2 ^ 128) = (r = mul s u v)"
    unfolding 1 [symmetric] by (auto dest: val_inj)
  have 3: "mul s u v = add (add (mul64 s (lo u) (lo v)) (shl (mul64 s (lo u) (hi v)) 64))
                      (shl (mul64 s (hi u) (lo v)) 64)"
    by (simp only: mul_def Let_def add_def)
  from 1 2 3 show ?thesis by (intro conjI)
qed

text \<open>
  C4. For every value \<open>v\<close> and 64-bit word \<open>w\<close>, \<^verbatim>\<open>v * w\<close> and the commutative form
  \<^verbatim>\<open>w * v\<close> stand for the product \<open>(hi \<sqdot> 2\<^sup>6\<^sup>4 + lo) \<sqdot> w\<close> modulo \<open>2\<^sup>1\<^sup>2\<^sup>8\<close>. Of the partial
  product \<^verbatim>\<open>mul64(v.hi, w)\<close> only the low limb survives the shift by 64; its bits at
  or above bit 128 of the result are discarded. The result equals the 128 \<times> 128 path
  \<^verbatim>\<open>v * u128(w, 0)\<close>; for instance \<open>(0, 2\<^sup>6\<^sup>4 - 1) \<sqdot> 2 = (0, 2\<^sup>6\<^sup>4 - 2)\<close>.
\<close>

theorem mul_u64_mod_2_128:
  "val (mul_u64 s v w) = (val v * unat w) mod 2 ^ 128
   \<and> u64_mul s w v = mul_u64 s v w
   \<and> mul_u64 s v w = mul s v (u128_of_limbs w 0)
   \<and> mul_u64 s v w = add (mul64 s (lo v) w) \<lparr> lo = 0, hi = lo (mul64 s (hi v) w) \<rparr>
   \<and> mul_u64 s (u128_of_limbs 0 0xFFFFFFFFFFFFFFFF) 2 = u128_of_limbs 0 0xFFFFFFFFFFFFFFFE
   \<and> mul s (u128_of_limbs 0 0xFFFFFFFFFFFFFFFF) (u128_of_limbs 2 0)
       = u128_of_limbs 0 0xFFFFFFFFFFFFFFFE"
proof -
  have 1: "val (mul_u64 s v w) = (val v * unat w) mod 2 ^ 128"
    by (rule val_mul_u64)
  have 2: "u64_mul s w v = mul_u64 s v w"
    by (simp only: u64_mul_def)
  have 3: "mul_u64 s v w = mul s v (u128_of_limbs w 0)"
    by (rule mul_u64_eq_mul)
  have 4: "mul_u64 s v w = add (mul64 s (lo v) w) \<lparr> lo = 0, hi = lo (mul64 s (hi v) w) \<rparr>"
    by (simp only: mul_u64_def Let_def shl_64_limbs)
  have 5: "mul_u64 s (u128_of_limbs 0 0xFFFFFFFFFFFFFFFF) 2 = u128_of_limbs 0 0xFFFFFFFFFFFFFFFE"
    by (simp add: mul_u64_def mul64_eq_portable mul64_portable_def LO_def HI_def
        u128_of_limbs_def shl_64_limbs add_def add_assign_def)
  have 6: "mul s (u128_of_limbs 0 0xFFFFFFFFFFFFFFFF) (u128_of_limbs 2 0)
       = u128_of_limbs 0 0xFFFFFFFFFFFFFFFE"
    unfolding mul_u64_eq_mul [symmetric] by (rule 5)
  from 1 2 3 4 5 6 show ?thesis by (intro conjI)
qed

section \<open>Comparison is the order of the numbers\<close>

lemma lt_val: "lt a b = (val a < val b)"
proof -
  have la: "unat (lo a) < 2 ^ 64" and lb: "unat (lo b) < 2 ^ 64"
    by (rule unat_u64_less)+
  show ?thesis
  proof (cases "hi a = hi b")
    case True
    then show ?thesis by (simp add: lt_def val_def word_less_nat_alt)
  next
    case False
    then have ne: "unat (hi a) \<noteq> unat (hi b)" by (simp add: word_unat_eq_iff)
    show ?thesis
    proof (cases "unat (hi a) < unat (hi b)")
      case True
      then have "unat (hi a) + 1 \<le> unat (hi b)" by simp
      then have "(unat (hi a) + 1) * 2 ^ 64 \<le> unat (hi b) * 2 ^ 64"
        by (rule mult_right_mono) simp
      with la have "val a < val b" by (simp add: val_def)
      with True show ?thesis by (simp add: lt_def word_less_nat_alt)
    next
      case False
      with ne have "unat (hi b) + 1 \<le> unat (hi a)" by simp
      then have "(unat (hi b) + 1) * 2 ^ 64 \<le> unat (hi a) * 2 ^ 64"
        by (rule mult_right_mono) simp
      with lb have "val b < val a" by (simp add: val_def)
      with False \<open>hi a \<noteq> hi b\<close> show ?thesis by (simp add: lt_def word_less_nat_alt)
    qed
  qed
qed

lemma eq_val: "eq a b = (val a = val b)"
proof
  assume "eq a b"
  then show "val a = val b" by (simp add: eq_def val_def)
next
  assume "val a = val b"
  then have "a = b" by (rule val_inj)
  then show "eq a b" by (simp add: eq_def)
qed

text \<open>
  C8. For all values \<open>a\<close> and \<open>b\<close>: \<^verbatim>\<open>a == b\<close> holds exactly when both limbs are equal;
  \<^verbatim>\<open>a < b\<close> holds exactly when \<open>(a.hi, a.lo)\<close> is lexicographically below
  \<open>(b.hi, b.lo)\<close>, which is exactly when \<open>a\<close>'s number \<open>hi \<sqdot> 2\<^sup>6\<^sup>4 + lo\<close> is the smaller;
  and \<^verbatim>\<open>!=\<close>, \<^verbatim>\<open><=\<close>, \<^verbatim>\<open>>\<close>, \<^verbatim>\<open>>=\<close> are the relations on the numbers that their names
  say. For instance \<open>(0, 1) > (2\<^sup>6\<^sup>4 - 1, 0)\<close>.
\<close>

theorem comparison_operators:
  "eq a b = (lo a = lo b \<and> hi a = hi b)
   \<and> eq a b = (a = b)
   \<and> lt a b = ((hi a, lo a) < (hi b, lo b))
   \<and> lt a b = (val a < val b)
   \<and> ne a b = (val a \<noteq> val b)
   \<and> le a b = (val a \<le> val b)
   \<and> gt a b = (val a > val b)
   \<and> ge a b = (val a \<ge> val b)
   \<and> le a b = (lt a b \<or> eq a b)
   \<and> ge a b = (gt a b \<or> eq a b)
   \<and> gt (u128_of_limbs 0 1) (u128_of_limbs 0xFFFFFFFFFFFFFFFF 0)"
proof -
  have 1: "eq a b = (lo a = lo b \<and> hi a = hi b)"
    by (simp only: eq_def)
  have 2: "eq a b = (a = b)"
    by (auto simp add: eq_def)
  have 3: "lt a b = ((hi a, lo a) < (hi b, lo b))"
    by (auto simp add: lt_def less_prod_def)
  have 4: "lt a b = (val a < val b)"
    by (rule lt_val)
  have 5: "ne a b = (val a \<noteq> val b)"
    by (simp only: ne_def eq_val)
  have 6: "le a b = (val a \<le> val b)"
    by (simp add: le_def lt_val not_less)
  have 7: "gt a b = (val a > val b)"
    by (simp only: gt_def lt_val)
  have 8: "ge a b = (val a \<ge> val b)"
    by (simp add: ge_def lt_val not_less)
  have 9: "le a b = (lt a b \<or> eq a b)"
    unfolding 6 lt_val eq_val by (rule le_less)
  have 10: "ge a b = (gt a b \<or> eq a b)"
    unfolding 8 7 eq_val by auto
  have 11: "gt (u128_of_limbs 0 1) (u128_of_limbs 0xFFFFFFFFFFFFFFFF 0)"
    by (simp add: gt_def lt_def u128_of_limbs_def)
  from 1 2 3 4 5 6 7 8 9 10 11 show ?thesis by (intro conjI)
qed

section \<open>The hexadecimal form and the global locale\<close>

text \<open>The digits of weight \<open>16\<^sup>k\<^sup>-\<^sup>1\<close> down to \<open>16\<^sup>0\<close>.\<close>

lemma padded_digits_Suc:
  "map (\<lambda>i. digit_char (n div 16 ^ (Suc k - 1 - i) mod 16)) [0..<Suc k]
   = map (\<lambda>i. digit_char (n div 16 div 16 ^ (k - 1 - i) mod 16)) [0..<k]
     @ [digit_char (n mod 16)]"
proof -
  have "n div 16 ^ (k - i) = n div 16 div 16 ^ (k - 1 - i)" if "i < k" for i
  proof -
    from that have "k - i = Suc (k - 1 - i)" by simp
    then show ?thesis by (simp add: div_mult2_eq)
  qed
  then show ?thesis by simp
qed

lemma padded_digits_0:
  "map (\<lambda>i. digit_char ((0::nat) div 16 ^ (k - 1 - i) mod 16)) [0..<k] = replicate k CHR ''0''"
  by (simp add: map_replicate_const digit_char_def)

lemma to_digits_16_padded:
  "0 < k \<Longrightarrow> n < 16 ^ k \<Longrightarrow>
   length (to_digits 16 n) \<le> k \<and>
   replicate (k - length (to_digits 16 n)) CHR ''0'' @ to_digits 16 n
     = map (\<lambda>i. digit_char (n div 16 ^ (k - 1 - i) mod 16)) [0..<k]"
proof (induction k arbitrary: n)
  case 0
  then show ?case by simp
next
  case (Suc k)
  show ?case
  proof (cases "n < 16")
    case True
    then have d: "to_digits 16 n = [digit_char n]"
      by (simp add: to_digits.simps)
    from True have "n div 16 = 0" "n mod 16 = n" by simp_all
    then have "map (\<lambda>i. digit_char (n div 16 ^ (Suc k - 1 - i) mod 16)) [0..<Suc k]
        = replicate k CHR ''0'' @ [digit_char n]"
      by (simp only: padded_digits_Suc padded_digits_0)
    with d show ?thesis by simp
  next
    case False
    then have d: "to_digits 16 n = to_digits 16 (n div 16) @ [digit_char (n mod 16)]"
      by (subst to_digits.simps) simp
    from False Suc.prems have k: "0 < k"
      by (cases k) simp_all
    from Suc.prems have "n div 16 < 16 ^ k"
      by (simp add: less_mult_imp_div_less)
    from Suc.IH [OF k this]
    have len: "length (to_digits 16 (n div 16)) \<le> k"
      and pad: "replicate (k - length (to_digits 16 (n div 16))) CHR ''0'' @ to_digits 16 (n div 16)
        = map (\<lambda>i. digit_char (n div 16 div 16 ^ (k - 1 - i) mod 16)) [0..<k]"
      by simp_all
    from len have 1: "length (to_digits 16 n) \<le> Suc k"
      by (simp add: d)
    have "replicate (Suc k - length (to_digits 16 n)) CHR ''0'' @ to_digits 16 n
        = (replicate (k - length (to_digits 16 (n div 16))) CHR ''0'' @ to_digits 16 (n div 16))
          @ [digit_char (n mod 16)]"
      by (simp add: d)
    also have "\<dots> = map (\<lambda>i. digit_char (n div 16 ^ (Suc k - 1 - i) mod 16)) [0..<Suc k]"
      by (simp only: pad padded_digits_Suc)
    finally show ?thesis using 1 by simp
  qed
qed

lemma setw16_hex:
  "replicate (16 - length (to_digits 16 (unat (x :: u64)))) CHR ''0'' @ to_digits 16 (unat x)
   = hex16 x"
proof -
  have "unat x < 16 ^ 16"
    using unat_u64_less [of x] by simp
  with to_digits_16_padded [of 16 "unat x"] show ?thesis
    by (simp add: hex16_def)
qed

text \<open>The string that \<^verbatim>\<open>to_string_hex\<close> builds, field by field.\<close>

lemma to_string_hex_fields:
  "to_string_hex glob v =
     ''0x''
     @ pad ((ostringstream glob)\<lparr> os_fill := CHR ''0'', os_width := 16 \<rparr>)
         (group_digits glob (to_digits 16 (unat (hi v))))
     @ pad ((ostringstream glob)\<lparr> os_fill := CHR ''0'', os_width := 16 \<rparr>)
         (group_digits glob (to_digits 16 (unat (lo v))))"
  by (simp add: to_string_hex_def ostringstream_def put_str_def put_def pad_def
      std_hex_def setfill_def setw_def put_u64_def str_def Let_def)

subsection \<open>Without digit grouping\<close>

lemma group_digits_none: "grouping loc = [] \<Longrightarrow> group_digits loc ds = ds"
  by (simp add: group_digits_def insert_seps.simps)

lemma to_string_hex_no_grouping:
  assumes "grouping glob = []"
  shows "to_string_hex glob v = ''0x'' @ hex16 (hi v) @ hex16 (lo v)"
  by (simp add: to_string_hex_fields group_digits_none [OF assms] pad_def ostringstream_def
      setw16_hex)

lemma length_hex16: "length (hex16 x) = 16"
  by (simp add: hex16_def)

lemma length_to_string_hex_no_grouping:
  "grouping glob = [] \<Longrightarrow> length (to_string_hex glob v) = 34"
  by (simp add: to_string_hex_no_grouping length_hex16)

lemma hex16_0: "hex16 0 = ''0000000000000000''"
  by code_simp

lemma hex16_42: "hex16 42 = ''000000000000002a''"
  by code_simp

lemma hex16_chars: "set (hex16 x) \<subseteq> set ''0123456789abcdef''"
proof -
  have "digit_char (d mod 16) \<in> set ''0123456789abcdef''" for d
    unfolding digit_char_def by (rule nth_mem) simp
  then show ?thesis by (auto simp add: hex16_def)
qed

lemma to_string_hex_classic_42:
  "to_string_hex classic_locale (u128_of_limbs 42 0) = ''0x0000000000000000000000000000002a''"
proof -
  have "grouping classic_locale = []" by (simp add: classic_locale_def)
  then show ?thesis
    by (simp add: to_string_hex_no_grouping u128_of_limbs_def hex16_0 hex16_42)
qed

subsection \<open>Stream insertion\<close>

lemma ostream_insert_good:
  "os_good os \<Longrightarrow>
   os_buf (ostream_insert glob os v) = os_buf os @ pad os (to_string_hex glob v)"
  by (simp add: ostream_insert_def put_str_def put_def)

lemma ostream_insert_not_good: "\<not> os_good os \<Longrightarrow> ostream_insert glob os v = os"
  by (simp add: ostream_insert_def put_str_def put_def)

lemma pad_narrow: "os_width os \<le> length s \<Longrightarrow> pad os s = s"
  by (simp add: pad_def)

subsection \<open>With digit grouping\<close>

lemma digits_max: "to_digits 16 0xFFFFFFFFFFFFFFFF = ''ffffffffffffffff''"
  by (simp add: to_digits.simps digit_char_def)

lemma group_max: "group_digits en_US ''ffffffffffffffff'' = ''f,fff,fff,fff,fff,fff''"
  by (simp add: group_digits_def en_US_def insert_seps.simps)

text \<open>
  C9. The header documents \<^verbatim>\<open>to_string_hex()\<close> as always giving 34 characters: \<^verbatim>\<open>0x\<close>,
  then \<^verbatim>\<open>hi\<close>, then \<^verbatim>\<open>lo\<close>, each as 16 zero-padded lowercase hexadecimal digits, and
  stream insertion prints that string. The code gives this form when the process-global
  locale does not group digits (\<open>to_string_hex_no_grouping\<close>), and not in general: its
  string stream takes the global locale, and a locale that groups digits puts separators
  into each limb. Under a locale grouping by threes with a comma, the value with both
  limbs \<open>2\<^sup>6\<^sup>4 - 1\<close> formats as 44 characters, and stream insertion into a good stream
  with the default width writes those 44 characters.
\<close>

theorem to_string_hex_grouping_locale:
  "to_string_hex en_US MAX_u128 = ''0xf,fff,fff,fff,fff,ffff,fff,fff,fff,fff,fff''
   \<and> length (to_string_hex en_US MAX_u128) = 44
   \<and> os_buf (ostream_insert en_US (ostringstream classic_locale) MAX_u128)
       = ''0xf,fff,fff,fff,fff,ffff,fff,fff,fff,fff,fff''"
proof -
  have 1: "to_string_hex en_US MAX_u128 = ''0xf,fff,fff,fff,fff,ffff,fff,fff,fff,fff,fff''"
    by (simp add: to_string_hex_fields MAX_u128_def digits_max group_max pad_def
        ostringstream_def)
  have 2: "length (to_string_hex en_US MAX_u128) = 44"
    unfolding 1 by simp
  have 3: "os_buf (ostream_insert en_US (ostringstream classic_locale) MAX_u128)
       = ''0xf,fff,fff,fff,fff,ffff,fff,fff,fff,fff,fff''"
    unfolding ostream_insert_def 1 by (simp add: put_str_def put_def pad_def ostringstream_def)
  from 1 2 3 show ?thesis by (intro conjI)
qed

end
